theory Spec2Isabelle
  imports Main "HOL-Library.Sublist" "HOL-Library.AList"
begin

section \<open>JavaScript string primitives used by the services\<close>

text \<open>
  Strings are lists of characters. The model covers ASCII text: \<open>toLowerCase\<close> maps
  \<open>A\<close>..\<open>Z\<close> to \<open>a\<close>..\<open>z\<close> and leaves every other character alone, which is what
  \<^verbatim>\<open>String.prototype.toLowerCase\<close> does on ASCII input.
\<close>

definition is_upper :: "char \<Rightarrow> bool" where
  "is_upper c = (65 \<le> (of_char c :: nat) \<and> (of_char c :: nat) \<le> 90)"

definition is_lower :: "char \<Rightarrow> bool" where
  "is_lower c = (97 \<le> (of_char c :: nat) \<and> (of_char c :: nat) \<le> 122)"

definition lower_char :: "char \<Rightarrow> char" where
  "lower_char c = (if is_upper c then char_of ((of_char c :: nat) + 32) else c)"

definition toLowerCase :: "string \<Rightarrow> string" where
  "toLowerCase s = map lower_char s"

text \<open>
  A string of ASCII characters. On such a string \<open>toLowerCase\<close> above is
  \<^verbatim>\<open>String.prototype.toLowerCase\<close>; statements about lowercased output are made for
  ASCII strings.
\<close>

definition is_ascii :: "string \<Rightarrow> bool" where
  "is_ascii s = list_all (\<lambda>c. (of_char c :: nat) < 128) s"

text \<open>\<^verbatim>\<open>s.startsWith(t)\<close>, \<^verbatim>\<open>s.endsWith(t)\<close> and \<^verbatim>\<open>s.includes(t)\<close>.\<close>

definition startsWith :: "string \<Rightarrow> string \<Rightarrow> bool" where
  "startsWith s t = prefix t s"


definition includes_str :: "string \<Rightarrow> string \<Rightarrow> bool" where
  "includes_str s t = sublist t s"

text \<open>
  \<^verbatim>\<open>s.split(sep)\<close> for a one-character separator: every occurrence of the
  separator cuts the string, and the result always has at least one part
  (\<^verbatim>\<open>"".split(":")\<close> is \<^verbatim>\<open>[""]\<close>).
\<close>

fun split :: "char \<Rightarrow> string \<Rightarrow> string list" where
  "split sep [] = [] # []"
| "split sep (c # cs) =
     (if c = sep then [] # split sep cs
      else (case split sep cs of
              [] \<Rightarrow> [c] # []
            | p # ps \<Rightarrow> (c # p) # ps))"

text \<open>Array indexing \<^verbatim>\<open>parts[i]\<close>: \<^verbatim>\<open>undefined\<close> (here \<open>None\<close>) out of range.\<close>

fun index :: "'a list \<Rightarrow> nat \<Rightarrow> 'a option" where
  "index [] i = None"
| "index (x # xs) 0 = Some x"
| "index (x # xs) (Suc i) = index xs i"

section \<open>Semantic engine (services/semantic-engine.ts)\<close>

record ParsedKey =
  intent :: string
  "context" :: string
  raw :: string

datatype js_error = TypeError

subsection \<open>The key pattern\<close>

text \<open>
  \<^verbatim>\<open>/^([a-z]+):([a-z_]+)(?:\+context:([a-z_]+))?$/i\<close>.
  With the \<^verbatim>\<open>i\<close> flag the class \<^verbatim>\<open>[a-z]\<close> is the ASCII letters of both cases
  and the literal \<^verbatim>\<open>+context:\<close> is compared case-insensitively. Neither class
  contains \<^verbatim>\<open>:\<close> or \<^verbatim>\<open>+\<close>, so each group can only be the maximal run of its
  class: the match, when there is one, is unique. The result is the three capture
  groups; the third is \<open>None\<close> when the optional part did not take part in the match.
\<close>

definition is_alpha :: "char \<Rightarrow> bool" where
  "is_alpha c = (is_lower c \<or> is_upper c)"

definition is_word :: "char \<Rightarrow> bool" where
  "is_word c = (is_alpha c \<or> c = CHR ''_'')"

definition match_context_suffix :: "string \<Rightarrow> string option option" where
  "match_context_suffix r =
     (if r = [] then Some None
      else if toLowerCase (take 9 r) = ''+context:'' \<and> drop 9 r \<noteq> [] \<and> list_all is_word (drop 9 r)
           then Some (Some (drop 9 r))
      else None)"

definition keyPattern_match :: "string \<Rightarrow> (string \<times> string \<times> string option) option" where
  "keyPattern_match key =
     (let g1 = takeWhile is_alpha key; r1 = dropWhile is_alpha key in
      if g1 = [] then None
      else (case r1 of
              [] \<Rightarrow> None
            | c # r2 \<Rightarrow>
                if c \<noteq> CHR '':'' then None
                else (let g2 = takeWhile is_word r2; r3 = dropWhile is_word r2 in
                      if g2 = [] then None
                      else (case match_context_suffix r3 of
                              None \<Rightarrow> None
                            | Some g3 \<Rightarrow> Some (g1, g2, g3)))))"

subsection \<open>parseKey and generateKey\<close>

text \<open>\<^verbatim>\<open>x?.toLowerCase() || 'default'\<close>: an absent or empty string gives \<^verbatim>\<open>'default'\<close>.\<close>

definition lower_or_default :: "string option \<Rightarrow> string" where
  "lower_or_default x =
     (case x of
        None \<Rightarrow> ''default''
      | Some s \<Rightarrow> (if toLowerCase s = [] then ''default'' else toLowerCase s))"

definition parseKey :: "string \<Rightarrow> js_error + ParsedKey" where
  "parseKey key =
     (case keyPattern_match key of
        Some (m1, m2, m3) \<Rightarrow>
          Inr \<lparr>intent = toLowerCase m1, context = lower_or_default m3, raw = key\<rparr>
      | None \<Rightarrow>
          (let parts = split CHR '':'' key in
           case index parts 0 of
             None \<Rightarrow> Inl TypeError
           | Some p0 \<Rightarrow>
               Inr \<lparr>intent = toLowerCase p0, context = lower_or_default (index parts 1),
                    raw = key\<rparr>))"

text \<open>The optional \<^verbatim>\<open>context\<close> argument: \<open>None\<close> is \<^verbatim>\<open>undefined\<close>; the empty string is falsy too.\<close>

definition generateKey :: "string \<Rightarrow> string option \<Rightarrow> string" where
  "generateKey i c =
     (case c of
        None \<Rightarrow> ''intent:'' @ i
      | Some cx \<Rightarrow> (if cx \<noteq> [] then ''intent:'' @ i @ ''+context:'' @ cx else ''intent:'' @ i))"

subsection \<open>Scoring and findBestMatch\<close>

definition isContextRelated :: "string \<Rightarrow> string \<Rightarrow> bool" where
  "isContextRelated ctx1 ctx2 =
     (startsWith ctx1 ctx2 \<or> startsWith ctx2 ctx1 \<or> includes_str ctx1 ctx2 \<or> includes_str ctx2 ctx1)"

definition calculateMatchScore :: "string \<Rightarrow> string \<Rightarrow> string \<Rightarrow> string \<Rightarrow> nat" where
  "calculateMatchScore keyIntent keyContext targetIntent targetContext =
     (let score = 0;
          score = (if keyIntent = targetIntent then score + 10 else score);
          score = (if keyContext = targetContext then score + 5
                   else if keyContext = ''default'' then score + 1
                   else if isContextRelated keyContext targetContext then score + 2
                   else score)
      in score)"

text \<open>
  The loop of \<open>findBestMatch\<close> carries \<open>(bestMatch, highestScore)\<close> through the
  candidates in list order.
\<close>

fun findBestMatch_loop ::
  "ParsedKey list \<Rightarrow> string \<Rightarrow> string \<Rightarrow> ParsedKey option \<times> nat \<Rightarrow> ParsedKey option \<times> nat" where
  "findBestMatch_loop [] targetIntent targetContext st = st"
| "findBestMatch_loop (key # keys) targetIntent targetContext (bestMatch, highestScore) =
     (let score = calculateMatchScore (intent key) (context key) targetIntent targetContext in
      if score > highestScore
      then findBestMatch_loop keys targetIntent targetContext (Some key, score)
      else findBestMatch_loop keys targetIntent targetContext (bestMatch, highestScore))"

definition findBestMatch :: "ParsedKey list \<Rightarrow> string \<Rightarrow> string \<Rightarrow> ParsedKey option" where
  "findBestMatch availableKeys targetIntent targetContext =
     fst (findBestMatch_loop availableKeys targetIntent targetContext (None, 0))"

text \<open>The score of a candidate against the target, as the loop computes it.\<close>

abbreviation score_of :: "string \<Rightarrow> string \<Rightarrow> ParsedKey \<Rightarrow> nat" where
  "score_of targetIntent targetContext key \<equiv>
     calculateMatchScore (intent key) (context key) targetIntent targetContext"

subsection \<open>Reading a key at its first colon\<close>

text \<open>
  The part of a string before its first \<open>:\<close> (the whole string when there is none)
  and the part after it (\<open>None\<close> when there is none).
\<close>

definition before_colon :: "string \<Rightarrow> string" where
  "before_colon s = takeWhile (\<lambda>c. c \<noteq> CHR '':'') s"

definition after_colon :: "string \<Rightarrow> string option" where
  "after_colon s =
     (case dropWhile (\<lambda>c. c \<noteq> CHR '':'') s of
        [] \<Rightarrow> None
      | c # right \<Rightarrow> Some right)"

text \<open>
  The fallback of \<open>parseKey\<close> as the specification words it: the key is cut at its
  first \<open>:\<close>, the left side is the intent and the whole right side, when there is
  one, is the context. It is compared with \<open>parseKey\<close> below.
\<close>

definition parseKey_fallback_as_specified :: "string \<Rightarrow> ParsedKey" where
  "parseKey_fallback_as_specified key =
     \<lparr>intent = toLowerCase (before_colon key),
      context = (case after_colon key of
                   None \<Rightarrow> ''default''
                 | Some right \<Rightarrow> (if right = [] then ''default'' else toLowerCase right)),
      raw = key\<rparr>"

text \<open>A lowercase token: a non-empty string of \<open>a\<close>..\<open>z\<close> and \<open>_\<close>.\<close>

definition is_token :: "string \<Rightarrow> bool" where
  "is_token s = (s \<noteq> [] \<and> list_all (\<lambda>c. is_lower c \<or> c = CHR ''_'') s)"

section \<open>Cache service (services/cache.ts)\<close>

subsection \<open>The shared tier\<close>

text \<open>
  The Redis client is a collaborator outside the repository. It is modelled by what
  the service asks of it: a store of values with an expiry time each, and commands
  that either succeed or reject. \<open>failing\<close> says that commands reject (the
  connection is down); a rejected command changes nothing. Time is one clock of
  milliseconds, the one \<^verbatim>\<open>Date.now()\<close> reads.
\<close>

record redis_entry =
  redis_value :: string
  redis_expiry :: int

record redis_client =
  failing :: bool
  entries :: "(string \<times> redis_entry) list"

datatype redis_error = RedisError

definition redis_get :: "redis_client \<Rightarrow> int \<Rightarrow> string \<Rightarrow> redis_error + string option" where
  "redis_get r now k =
     (if failing r then Inl RedisError
      else Inr (case map_of (entries r) k of
                  None \<Rightarrow> None
                | Some e \<Rightarrow> (if now < redis_expiry e then Some (redis_value e) else None)))"

definition redis_setex ::
  "redis_client \<Rightarrow> int \<Rightarrow> string \<Rightarrow> int \<Rightarrow> string \<Rightarrow> redis_error + redis_client" where
  "redis_setex r now k seconds v =
     (if failing r then Inl RedisError
      else Inr (r\<lparr>entries :=
                    AList.update k \<lparr>redis_value = v, redis_expiry = now + seconds * 1000\<rparr>
                      (entries r)\<rparr>))"

definition redis_del :: "redis_client \<Rightarrow> string list \<Rightarrow> redis_error + redis_client" where
  "redis_del r ks =
     (if failing r then Inl RedisError
      else Inr (r\<lparr>entries := filter (\<lambda>(k, e). k \<notin> set ks) (entries r)\<rparr>))"

text \<open>
  \<^verbatim>\<open>KEYS pattern\<close>. The server is outside the repository; the matcher below is the
  glob language its documentation gives for \<^verbatim>\<open>KEYS\<close>: \<open>*\<close> stands for any run of
  characters, \<open>?\<close> for any one character, \<open>[...]\<close> for one character of a class
  (single characters, ranges \<open>a-z\<close>, negated by a leading \<open>^\<close>), a backslash takes
  the next character literally, and every other character stands for itself.
  \<open>redis_glob_class neg m p x s\<close> reads the rest \<open>p\<close> of a class against the
  character \<open>x\<close>, with \<open>m\<close> telling whether an item has matched so far, and goes on
  with the rest of the key \<open>s\<close> after the closing bracket.
\<close>

definition in_range :: "char \<Rightarrow> char \<Rightarrow> char \<Rightarrow> bool" where
  "in_range lo hi x =
     (let a = (of_char lo :: nat); b = (of_char hi :: nat); n = (of_char x :: nat) in
      if a \<le> b then a \<le> n \<and> n \<le> b else b \<le> n \<and> n \<le> a)"

fun redis_glob :: "string \<Rightarrow> string \<Rightarrow> bool"
  and redis_glob_class :: "bool \<Rightarrow> bool \<Rightarrow> string \<Rightarrow> char \<Rightarrow> string \<Rightarrow> bool" where
  "redis_glob [] s = (s = [])"
| "redis_glob (c # p) [] = (c = CHR ''*'' \<and> redis_glob p [])"
| "redis_glob (c # p) (x # s) =
     (if c = CHR ''*'' then redis_glob p (x # s) \<or> redis_glob (c # p) s
      else if c = CHR ''?'' then redis_glob p s
      else if c = CHR ''['' then
        (case p of
           [] \<Rightarrow> redis_glob_class False False [] x s
         | n # p' \<Rightarrow>
             (if n = CHR ''^'' then redis_glob_class True False p' x s
              else redis_glob_class False False p x s))
      else if c = CHR 0x5C then
        (case p of
           [] \<Rightarrow> x = c \<and> s = []
         | e # p' \<Rightarrow> x = e \<and> redis_glob p' s)
      else x = c \<and> redis_glob p s)"
| "redis_glob_class neg m [] x s = (m \<noteq> neg \<and> s = [])"
| "redis_glob_class neg m (c # p) x s =
     (if c = CHR '']'' then m \<noteq> neg \<and> redis_glob p s
      else if c = CHR 0x5C then
        (case p of
           [] \<Rightarrow> redis_glob_class neg (m \<or> x = c) [] x s
         | e # p' \<Rightarrow> redis_glob_class neg (m \<or> x = e) p' x s)
      else
        (case p of
           d # e # p' \<Rightarrow>
             (if d = CHR ''-'' then redis_glob_class neg (m \<or> in_range c e x) p' x s
              else redis_glob_class neg (m \<or> x = c) p x s)
         | _ \<Rightarrow> redis_glob_class neg (m \<or> x = c) p x s))"



definition redis_flushdb :: "redis_client \<Rightarrow> redis_error + redis_client" where
  "redis_flushdb r = (if failing r then Inl RedisError else Inr (r\<lparr>entries := []\<rparr>))"

subsection \<open>The service\<close>

definition CACHE_TTL :: int where
  "CACHE_TTL = 3600"

record mem_entry =
  entry_value :: string
  expiresAt :: int

text \<open>
  \<open>redis\<close> is \<open>None\<close> when \<^verbatim>\<open>this.redis\<close> is \<^verbatim>\<open>null\<close>. \<open>memoryCache\<close> is the
  \<^verbatim>\<open>Map\<close>, kept in insertion order: \<^verbatim>\<open>Map.set\<close> is \<open>AList.update\<close>,
  \<^verbatim>\<open>Map.get\<close> is \<open>map_of\<close>, \<^verbatim>\<open>Map.delete\<close> is \<open>AList.delete\<close>.
\<close>

record CacheService =
  redis :: "redis_client option"
  memoryCache :: "(string \<times> mem_entry) list"

definition getCacheKey :: "string \<Rightarrow> string \<Rightarrow> string" where
  "getCacheKey key lang = key @ '':'' @ lang"

text \<open>
  The first half of \<open>get\<close>: the value the shared tier answers with, when the handle
  is there, the command succeeds and the value is truthy (a non-empty string).
\<close>

definition get_redis :: "CacheService \<Rightarrow> int \<Rightarrow> string \<Rightarrow> string option" where
  "get_redis s now cacheKey =
     (case redis s of
        None \<Rightarrow> None
      | Some r \<Rightarrow>
          (case redis_get r now cacheKey of
             Inl err \<Rightarrow> None
           | Inr None \<Rightarrow> None
           | Inr (Some v) \<Rightarrow> (if v \<noteq> [] then Some v else None)))"

definition get_memory :: "CacheService \<Rightarrow> int \<Rightarrow> string \<Rightarrow> string option" where
  "get_memory s now cacheKey =
     (case map_of (memoryCache s) cacheKey of
        None \<Rightarrow> None
      | Some cached \<Rightarrow> (if expiresAt cached > now then Some (entry_value cached) else None))"

definition get :: "CacheService \<Rightarrow> int \<Rightarrow> string \<Rightarrow> string \<Rightarrow> string option" where
  "get s now key lang =
     (let cacheKey = getCacheKey key lang in
      case get_redis s now cacheKey of
        Some v \<Rightarrow> Some v
      | None \<Rightarrow> get_memory s now cacheKey)"

definition set_memory :: "CacheService \<Rightarrow> int \<Rightarrow> string \<Rightarrow> string \<Rightarrow> CacheService" where
  "set_memory s now cacheKey v =
     s\<lparr>memoryCache :=
         AList.update cacheKey \<lparr>entry_value = v, expiresAt = now + CACHE_TTL * 1000\<rparr>
           (memoryCache s)\<rparr>"

definition set_cached :: "CacheService \<Rightarrow> int \<Rightarrow> string \<Rightarrow> string \<Rightarrow> string \<Rightarrow> CacheService" where
  "set_cached s now key lang v =
     (let cacheKey = getCacheKey key lang in
      case redis s of
        None \<Rightarrow> set_memory s now cacheKey v
      | Some r \<Rightarrow>
          (case redis_setex r now cacheKey CACHE_TTL v of
             Inr r' \<Rightarrow> s\<lparr>redis := Some r'\<rparr>
           | Inl err \<Rightarrow> set_memory s now cacheKey v))"

definition delete :: "CacheService \<Rightarrow> string \<Rightarrow> string \<Rightarrow> CacheService" where
  "delete s key lang =
     (let cacheKey = getCacheKey key lang;
          s1 = (case redis s of
                  None \<Rightarrow> s
                | Some r \<Rightarrow>
                    (case redis_del r [cacheKey] of
                       Inr r' \<Rightarrow> s\<lparr>redis := Some r'\<rparr>
                     | Inl err \<Rightarrow> s))
      in s1\<lparr>memoryCache := AList.delete cacheKey (memoryCache s1)\<rparr>)"




definition clearAll :: "CacheService \<Rightarrow> CacheService" where
  "clearAll s =
     (let s1 = (case redis s of
                  None \<Rightarrow> s
                | Some r \<Rightarrow>
                    (case redis_flushdb r of
                       Inr r' \<Rightarrow> s\<lparr>redis := Some r'\<rparr>
                     | Inl err \<Rightarrow> s))
      in s1\<lparr>memoryCache := []\<rparr>)"

definition getStats :: "CacheService \<Rightarrow> bool \<times> nat" where
  "getStats s = (redis s \<noteq> None, length (memoryCache s))"

text \<open>The shared tier is reachable: the handle is there and its commands succeed.\<close>

definition shared_reachable :: "CacheService \<Rightarrow> bool" where
  "shared_reachable s = (case redis s of None \<Rightarrow> False | Some r \<Rightarrow> \<not> failing r)"

section \<open>Contribution approval (routes/contribute.ts)\<close>

text \<open>
  The durable store as the approval handler uses it. Contributions are found by id,
  translations by the unique pair \<open>(keyId, languageId)\<close>; a translation key and a
  language are the rows the \<^verbatim>\<open>include\<close> of the query joins in. \<open>available\<close> is
  false when the queries reject.
\<close>

datatype Status = OPEN | APPROVED | REJECTED

record Contribution =
  keyId :: string
  languageId :: string
  suggestedValue :: string
  contribution_status :: Status

record Translation =
  translation_value :: string
  translation_status :: Status

record Database =
  available :: bool
  contributions :: "(string \<times> Contribution) list"
  translationKeys :: "(string \<times> string) list"
  languages :: "(string \<times> string) list"
  translationRows :: "((string \<times> string) \<times> Translation) list"

text \<open>
  The process state: the store behind \<^verbatim>\<open>prisma\<close> and the cache service of the
  translate routes.
\<close>

record App =
  prisma :: Database
  cacheService :: CacheService

text \<open>
  The replies of \<^verbatim>\<open>PUT /contribute/:id/approve\<close>: 404, 500, and 200 with the key,
  the value and the language code of the approved translation.
\<close>

datatype Reply =
    NotFound
  | InternalServerError
  | ContributionApproved string string string

definition approve :: "App \<Rightarrow> string \<Rightarrow> Reply \<times> App" where
  "approve app ident =
     (let db = prisma app in
      if \<not> available db then (InternalServerError, app)
      else (case map_of (contributions db) ident of
              None \<Rightarrow> (NotFound, app)
            | Some contribution \<Rightarrow>
                (let db1 = db\<lparr>contributions :=
                                AList.update ident (contribution\<lparr>contribution_status := APPROVED\<rparr>)
                                  (contributions db)\<rparr>;
                     db2 = db1\<lparr>translationRows :=
                                 AList.update (keyId contribution, languageId contribution)
                                   \<lparr>translation_value = suggestedValue contribution,
                                    translation_status = APPROVED\<rparr>
                                   (translationRows db1)\<rparr>
                 in (case (map_of (translationKeys db) (keyId contribution),
                           map_of (languages db) (languageId contribution)) of
                       (Some key, Some code) \<Rightarrow>
                         (ContributionApproved key (suggestedValue contribution) code,
                          app\<lparr>prisma := db2\<rparr>)
                     | _ \<Rightarrow> (InternalServerError, app\<lparr>prisma := db2\<rparr>)))))"

section \<open>Example states\<close>

text \<open>
  Candidates for the target \<open>(greeting, app_entry)\<close>: the second and the third tie
  on the highest score.
\<close>

definition cand_default :: ParsedKey where
  "cand_default = \<lparr>intent = ''greeting'', context = ''default'', raw = ''greeting''\<rparr>"

definition cand_first :: ParsedKey where
  "cand_first = \<lparr>intent = ''greeting'', context = ''app_entry'', raw = ''first''\<rparr>"

definition cand_second :: ParsedKey where
  "cand_second = \<lparr>intent = ''greeting'', context = ''app_entry'', raw = ''second''\<rparr>"

definition cand_farewell :: ParsedKey where
  "cand_farewell = \<lparr>intent = ''farewell'', context = ''app_entry'', raw = ''farewell''\<rparr>"

definition cand_unrelated :: ParsedKey where
  "cand_unrelated = \<lparr>intent = ''farewell'', context = ''xyz'', raw = ''farewell:xyz''\<rparr>"

text \<open>A service with no shared tier, and one whose shared tier is reachable and empty.\<close>

definition cache_local_only :: CacheService where
  "cache_local_only = \<lparr>redis = None, memoryCache = []\<rparr>"

definition cache_shared_empty :: CacheService where
  "cache_shared_empty = \<lparr>redis = Some \<lparr>failing = False, entries = []\<rparr>, memoryCache = []\<rparr>"

text \<open>
  A store with one open contribution, \<open>Selam\<close> for \<open>intent:greeting\<close> in \<open>tr\<close>, while
  the cache still holds the earlier translation \<open>Merhaba\<close> for that key and language.
\<close>

definition app_with_cached_greeting :: App where
  "app_with_cached_greeting =
     \<lparr>prisma =
        \<lparr>available = True,
         contributions =
           [(''c1'', \<lparr>keyId = ''k1'', languageId = ''l1'', suggestedValue = ''Selam'',
                     contribution_status = OPEN\<rparr>)],
         translationKeys = [(''k1'', ''intent:greeting'')],
         languages = [(''l1'', ''tr'')],
         translationRows =
           [((''k1'', ''l1''),
             \<lparr>translation_value = ''Merhaba'', translation_status = APPROVED\<rparr>)]\<rparr>,
      cacheService =
        \<lparr>redis = None,
         memoryCache =
           [(''intent:greeting:tr'', \<lparr>entry_value = ''Merhaba'', expiresAt = 3600000\<rparr>)]\<rparr>\<rparr>"



text \<open>
  Services whose shared tier holds the empty string for \<open>greeting:tr\<close>: one with an
  empty local tier, one with a live local entry for the same key (it expires at
  \<open>50\<close>).
\<close>

definition cache_shared_holds_empty :: CacheService where
  "cache_shared_holds_empty =
     \<lparr>redis = Some \<lparr>failing = False,
                    entries = [(''greeting:tr'', \<lparr>redis_value = [], redis_expiry = 100\<rparr>)]\<rparr>,
      memoryCache = []\<rparr>"

definition cache_shared_empty_local_live :: CacheService where
  "cache_shared_empty_local_live =
     \<lparr>redis = Some \<lparr>failing = False,
                    entries = [(''greeting:tr'', \<lparr>redis_value = [], redis_expiry = 100\<rparr>)]\<rparr>,
      memoryCache = [(''greeting:tr'', \<lparr>entry_value = ''Merhaba'', expiresAt = 50\<rparr>)]\<rparr>"

section \<open>Helper lemmas: strings\<close>

lemma split_eq:
  "split sep s =
     (case dropWhile (\<lambda>c. c \<noteq> sep) s of
        [] \<Rightarrow> [takeWhile (\<lambda>c. c \<noteq> sep) s]
      | c # r \<Rightarrow> takeWhile (\<lambda>c. c \<noteq> sep) s # split sep r)"
proof (induction s)
  case Nil
  then show ?case by simp
next
  case (Cons a s)
  show ?case
  proof (cases "a = sep")
    case True
    then show ?thesis by simp
  next
    case False
    then show ?thesis
      by (cases "dropWhile (\<lambda>c. c \<noteq> sep) s")
         (simp_all add: Cons.IH del: dropWhile_eq_Nil_conv)
  qed
qed

lemma index_split_0: "index (split sep s) 0 = Some (takeWhile (\<lambda>c. c \<noteq> sep) s)"
  by (subst split_eq) (cases "dropWhile (\<lambda>c. c \<noteq> sep) s"; simp del: dropWhile_eq_Nil_conv)

lemma index_split_1:
  "index (split sep s) (Suc 0) =
     (case dropWhile (\<lambda>c. c \<noteq> sep) s of
        [] \<Rightarrow> None
      | c # r \<Rightarrow> Some (takeWhile (\<lambda>c. c \<noteq> sep) r))"
  by (subst split_eq)
     (cases "dropWhile (\<lambda>c. c \<noteq> sep) s"; simp del: dropWhile_eq_Nil_conv add: index_split_0)

lemmas eval_string =
  toLowerCase_def lower_char_def is_upper_def is_lower_def is_alpha_def is_word_def
  char_of_def bit_Suc_0_iff

lemma toLowerCase_Nil_iff: "toLowerCase s = [] \<longleftrightarrow> s = []"
  by (simp add: toLowerCase_def)

lemma lower_char_id: "is_lower c \<or> c = CHR ''_'' \<Longrightarrow> lower_char c = c"
  by (auto simp: lower_char_def is_lower_def is_upper_def)

lemma token_lower: "is_token s \<Longrightarrow> toLowerCase s = s"
  by (auto simp: is_token_def toLowerCase_def list_all_iff lower_char_id intro: map_idI)

lemma token_word: "is_token s \<Longrightarrow> x \<in> set s \<Longrightarrow> is_word x"
  by (auto simp: is_token_def is_word_def is_alpha_def list_all_iff)

section \<open>Helper lemmas: the key pattern\<close>

lemma keyPattern_needs_colon: "CHR '':'' \<notin> set key \<Longrightarrow> keyPattern_match key = None"
proof -
  assume a: "CHR '':'' \<notin> set key"
  have "set (dropWhile is_alpha key) \<subseteq> set key"
    by (rule set_dropWhileD [THEN subsetI])
  with a have "\<And>r. dropWhile is_alpha key \<noteq> CHR '':'' # r" by auto
  then show ?thesis
    by (auto simp: keyPattern_match_def Let_def split: list.splits)
qed

lemma match_context_suffix_token:
  "is_token C \<Longrightarrow> match_context_suffix (''+context:'' @ C) = Some (Some C)"
  by (auto simp: match_context_suffix_def toLowerCase_def lower_char_def is_upper_def
      is_token_def list_all_iff is_word_def is_alpha_def)

lemma keyPattern_canonical:
  assumes "is_token I" "is_token C"
  shows "keyPattern_match (''intent:'' @ I @ ''+context:'' @ C) = Some (''intent'', I, Some C)"
proof -
  have w: "\<And>x. x \<in> set I \<Longrightarrow> is_word x" using assms(1) by (rule token_word)
  have plus: "\<not> is_word CHR ''+''"
    by (simp add: is_word_def is_alpha_def is_lower_def is_upper_def)
  have t: "takeWhile is_word (I @ ''+context:'' @ C) = I"
    using w plus by (simp add: takeWhile_append2)
  have d: "dropWhile is_word (I @ ''+context:'' @ C) = ''+context:'' @ C"
    using w plus by (simp add: dropWhile_append2)
  have ne: "I \<noteq> []" using assms(1) by (simp add: is_token_def)
  have a1: "takeWhile is_alpha (''intent:'' @ I @ ''+context:'' @ C) = ''intent''"
    by (simp add: is_alpha_def is_lower_def is_upper_def)
  have a2: "dropWhile is_alpha (''intent:'' @ I @ ''+context:'' @ C)
              = CHR '':'' # I @ ''+context:'' @ C"
    by (simp add: is_alpha_def is_lower_def is_upper_def)
  show ?thesis
    unfolding keyPattern_match_def a1 a2 Let_def
    using ne by (simp add: t d match_context_suffix_token [OF assms(2)] del: append.simps)
qed

text \<open>
  On every canonical key built from lowercase tokens the first capture group is the
  literal word \<open>intent\<close>, and that is what \<open>parseKey\<close> returns as the intent.
\<close>

lemma parseKey_canonical:
  assumes "is_token I" "is_token C"
  shows "parseKey (''intent:'' @ I @ ''+context:'' @ C) =
           Inr \<lparr>intent = ''intent'', context = C, raw = ''intent:'' @ I @ ''+context:'' @ C\<rparr>"
proof -
  have "C \<noteq> []" using assms(2) by (simp add: is_token_def)
  moreover have "toLowerCase ''intent'' = ''intent''"
    by (simp add: toLowerCase_def lower_char_def is_upper_def)
  ultimately show ?thesis
    unfolding parseKey_def keyPattern_canonical [OF assms]
    by (simp add: lower_or_default_def token_lower [OF assms(2)])
qed

lemma parseKey_no_match:
  "keyPattern_match key = None \<Longrightarrow>
     parseKey key =
       Inr \<lparr>intent = toLowerCase (before_colon key),
            context = (case after_colon key of
                         None \<Rightarrow> ''default''
                       | Some right \<Rightarrow>
                           (if before_colon right = [] then ''default''
                            else toLowerCase (before_colon right))),
            raw = key\<rparr>"
  by (cases "dropWhile (\<lambda>c. c \<noteq> CHR '':'') key")
     (simp_all add: parseKey_def index_split_0 index_split_1 lower_or_default_def
        before_colon_def after_colon_def toLowerCase_Nil_iff del: dropWhile_eq_Nil_conv)

lemma parseKey_no_colon:
  "CHR '':'' \<notin> set key \<Longrightarrow>
     parseKey key = Inr \<lparr>intent = toLowerCase key, context = ''default'', raw = key\<rparr>"
proof -
  assume a: "CHR '':'' \<notin> set key"
  then have all: "\<forall>c\<in>set key. c \<noteq> CHR '':''" by auto
  then have "dropWhile (\<lambda>c. c \<noteq> CHR '':'') key = []" by simp
  then have "after_colon key = None"
    by (simp add: after_colon_def del: dropWhile_eq_Nil_conv)
  moreover from all have "before_colon key = key"
    by (simp add: before_colon_def)
  ultimately show ?thesis
    using parseKey_no_match [OF keyPattern_needs_colon [OF a]] by simp
qed

text \<open>\<open>parseKey\<close> never fails: \<open>split\<close> always yields a first part.\<close>

lemma parseKey_total: "\<exists>p. parseKey key = Inr p"
  by (cases "keyPattern_match key") (auto simp: parseKey_def index_split_0)

section \<open>Helper lemmas: the matching loop\<close>

lemma loop_no_improve:
  "\<forall>k\<in>set ks. score_of ti tc k \<le> h \<Longrightarrow> findBestMatch_loop ks ti tc (b, h) = (b, h)"
  by (induction ks) auto

lemma loop_first_max:
  "\<forall>p\<in>set pre. score_of ti tc p < score_of ti tc k \<Longrightarrow>
   \<forall>q\<in>set post. score_of ti tc q \<le> score_of ti tc k \<Longrightarrow>
   h < score_of ti tc k \<Longrightarrow>
   findBestMatch_loop (pre @ k # post) ti tc (b, h) = (Some k, score_of ti tc k)"
proof (induction pre arbitrary: b h)
  case Nil
  then show ?case by (simp add: loop_no_improve)
next
  case (Cons p pre)
  then show ?case by (simp add: Let_def)
qed

lemma first_max_split:
  "ks \<noteq> [] \<Longrightarrow>
     \<exists>pre m post. ks = pre @ m # post \<and> (\<forall>p\<in>set pre. f p < (f m :: nat)) \<and>
       (\<forall>q\<in>set post. f q \<le> f m)"
proof (induction ks)
  case Nil
  then show ?case by simp
next
  case (Cons x xs)
  show ?case
  proof (cases "xs = []")
    case True
    then have "x # xs = [] @ x # []" by simp
    then show ?thesis by fastforce
  next
    case False
    with Cons.IH obtain pre m post where d: "xs = pre @ m # post"
      "\<forall>p\<in>set pre. f p < f m" "\<forall>q\<in>set post. f q \<le> f m" by blast
    show ?thesis
    proof (cases "f x < f m")
      case True
      with d have "x # xs = (x # pre) @ m # post \<and> (\<forall>p\<in>set (x # pre). f p < f m)
          \<and> (\<forall>q\<in>set post. f q \<le> f m)" by simp
      then show ?thesis by blast
    next
      case False
      with d have "x # xs = [] @ x # xs \<and> (\<forall>p\<in>set []. f p < f x)
          \<and> (\<forall>q\<in>set xs. f q \<le> f x)" by auto
      then show ?thesis by blast
    qed
  qed
qed

lemma findBestMatch_cases:
  "((\<forall>k\<in>set ks. score_of ti tc k = 0) \<and> findBestMatch ks ti tc = None) \<or>
   (\<exists>pre m post. ks = pre @ m # post \<and>
      (\<forall>p\<in>set pre. score_of ti tc p < score_of ti tc m) \<and>
      (\<forall>q\<in>set post. score_of ti tc q \<le> score_of ti tc m) \<and> 0 < score_of ti tc m \<and>
      findBestMatch ks ti tc = Some m)"
proof (cases "\<forall>k\<in>set ks. score_of ti tc k = 0")
  case True
  then have "findBestMatch_loop ks ti tc (None, 0) = (None, 0)"
    by (intro loop_no_improve) simp
  with True show ?thesis by (simp add: findBestMatch_def)
next
  case False
  then obtain k where k: "k \<in> set ks" "0 < score_of ti tc k" by auto
  then have "ks \<noteq> []" by auto
  from first_max_split [OF this, of "score_of ti tc"]
  obtain pre m post where d: "ks = pre @ m # post"
    "\<forall>p\<in>set pre. score_of ti tc p < score_of ti tc m"
    "\<forall>q\<in>set post. score_of ti tc q \<le> score_of ti tc m" by blast
  from k d have "score_of ti tc k \<le> score_of ti tc m" by (auto intro: less_imp_le)
  with k have pos: "0 < score_of ti tc m" by simp
  from loop_first_max [OF d(2) d(3) pos] d(1)
  have "findBestMatch ks ti tc = Some m" by (simp add: findBestMatch_def)
  with d pos show ?thesis by blast
qed

lemma example_scores:
  "score_of ''greeting'' ''app_entry'' cand_default = 11"
  "score_of ''greeting'' ''app_entry'' cand_first = 15"
  "score_of ''greeting'' ''app_entry'' cand_second = 15"
  "score_of ''greeting'' ''app_entry'' cand_farewell = 5"
  "score_of ''greeting'' ''app_entry'' cand_unrelated = 0"
  by (simp_all add: calculateMatchScore_def cand_default_def cand_first_def cand_second_def
      cand_farewell_def cand_unrelated_def isContextRelated_def startsWith_def includes_str_def
      sublist_code)

section \<open>Helper lemmas: the cache\<close>



lemma map_of_filter_keys:
  "map_of (filter (\<lambda>(k, e). P k) m) k = (if P k then map_of m k else None)"
  by (induction m) auto







lemma set_then_get_expired:
  "\<not> shared_reachable s \<Longrightarrow> t + CACHE_TTL * 1000 \<le> now \<Longrightarrow>
     get (set_cached s t key lang v) now key lang = None"
  by (cases "redis s")
     (auto simp: get_def set_cached_def set_memory_def get_redis_def get_memory_def
        redis_setex_def redis_get_def shared_reachable_def update_conv' CACHE_TTL_def Let_def
        split: option.splits sum.splits)

lemma get_Some_origin:
  "get s now key lang = Some v \<Longrightarrow>
     get_redis s now (getCacheKey key lang) = Some v \<or>
     (\<exists>e. map_of (memoryCache s) (getCacheKey key lang) = Some e \<and> entry_value e = v \<and>
          now < expiresAt e)"
  by (auto simp: get_def get_memory_def Let_def split: option.splits if_splits)

text \<open>What an invalidation would do: after \<open>delete\<close> the key is absent from \<open>get\<close>.\<close>

lemma delete_then_get: "get (delete s key lang) now key lang = None"
  by (cases "redis s")
     (auto simp: get_def delete_def get_redis_def get_memory_def redis_del_def
        redis_get_def delete_conv' Let_def map_of_filter_keys
        split: option.splits sum.splits)

section \<open>Helper lemmas: approval\<close>

lemma approve_cache: "cacheService (snd (approve app ident)) = cacheService app"
  by (simp add: approve_def Let_def split: option.splits)

lemma approve_store:
  "fst (approve app ident) = ContributionApproved k v l \<Longrightarrow>
     \<exists>c. map_of (contributions (prisma app)) ident = Some c \<and> v = suggestedValue c \<and>
         map_of (translationRows (prisma (snd (approve app ident)))) (keyId c, languageId c) =
           Some \<lparr>translation_value = v, translation_status = APPROVED\<rparr>"
  by (auto simp: approve_def Let_def update_conv' split: option.splits if_splits)

section \<open>The claims: semantic engine\<close>

text \<open>
  C1. For a canonical key \<open>intent:I+context:C\<close> the specification expects
  \<open>parseKey\<close> to return \<open>I\<close> as the intent, and \<open>generateKey I C\<close> to build that
  key. \<open>generateKey\<close> does build it, but \<open>parseKey\<close> reads the intent from the first
  capture group, which on these keys is the literal word \<open>intent\<close>: on
  \<open>intent:greeting+context:app_entry\<close> the parsed intent is \<open>intent\<close>, not \<open>greeting\<close>,
  so parsing a generated key does not give back the intent it was generated from.
\<close>

theorem parseKey_canonical_intent_is_literal:
  "parseKey ''intent:greeting+context:app_entry'' =
     Inr \<lparr>intent = ''intent'', context = ''app_entry'',
          raw = ''intent:greeting+context:app_entry''\<rparr> \<and>
   generateKey ''greeting'' (Some ''app_entry'') = ''intent:greeting+context:app_entry'' \<and>
   keyPattern_match ''intent:greeting+context:app_entry'' =
     Some (''intent'', ''greeting'', Some ''app_entry'')"
  by (simp add: parseKey_def keyPattern_match_def match_context_suffix_def lower_or_default_def
      generateKey_def eval_string)

text \<open>
  C4 as stated: on a key that does not match the pattern, the context is the whole
  right side of the first \<open>:\<close>. It fails on \<open>a:b:c\<close>, where \<open>split\<close> cuts at every
  \<open>:\<close> and \<open>parseKey\<close> keeps the second part only: the context is \<open>b\<close>, not \<open>b:c\<close>.
\<close>

theorem parseKey_fallback_counterexample:
  "keyPattern_match ''a:b:c'' = None \<and>
   parseKey ''a:b:c'' = Inr \<lparr>intent = ''a'', context = ''b'', raw = ''a:b:c''\<rparr> \<and>
   parseKey_fallback_as_specified ''a:b:c'' =
     \<lparr>intent = ''a'', context = ''b:c'', raw = ''a:b:c''\<rparr> \<and>
   parseKey ''a:b:c'' \<noteq> Inr (parseKey_fallback_as_specified ''a:b:c'')"
  by (simp add: parseKey_def keyPattern_match_def match_context_suffix_def lower_or_default_def
      parseKey_fallback_as_specified_def before_colon_def after_colon_def eval_string)

text \<open>
  C4, amended. On a key of ASCII characters that does not match the pattern,
  \<open>parseKey\<close> never fails; the intent is the part before the first \<open>:\<close>,
  lowercased; the context is the part between the first and the second \<open>:\<close> (up to
  the end of the key when there is no second one), lowercased, and \<open>default\<close> when
  the key has no \<open>:\<close> or that part is empty. A key with no \<open>:\<close> at all never matches
  the pattern: its intent is the whole key lowercased and its context is \<open>default\<close>.
\<close>

theorem parseKey_fallback_second_part:
  "is_ascii key \<Longrightarrow>
   (keyPattern_match key = None \<longrightarrow>
      parseKey key =
        Inr \<lparr>intent = toLowerCase (before_colon key),
             context = (case after_colon key of
                          None \<Rightarrow> ''default''
                        | Some right \<Rightarrow>
                            (if before_colon right = [] then ''default''
                             else toLowerCase (before_colon right))),
             raw = key\<rparr>) \<and>
   (CHR '':'' \<notin> set key \<longrightarrow>
      keyPattern_match key = None \<and>
      parseKey key = Inr \<lparr>intent = toLowerCase key, context = ''default'', raw = key\<rparr>)"
  using parseKey_no_match [of key] parseKey_no_colon [of key] keyPattern_needs_colon [of key]
  by blast

theorem parseKey_fallback_second_part_witness:
  "is_ascii ''Action:Submit+form:login'' \<and>
   keyPattern_match ''Action:Submit+form:login'' = None \<and>
   parseKey ''Action:Submit+form:login'' =
     Inr \<lparr>intent = ''action'', context = ''submit+form'',
          raw = ''Action:Submit+form:login''\<rparr> \<and>
   is_ascii ''Greeting'' \<and>
   CHR '':'' \<notin> set ''Greeting'' \<and>
   parseKey ''Greeting'' = Inr \<lparr>intent = ''greeting'', context = ''default'', raw = ''Greeting''\<rparr>"
proof -
  have a: "is_ascii ''Action:Submit+form:login''" "is_ascii ''Greeting''"
    by (simp_all add: is_ascii_def)
  have n: "keyPattern_match ''Action:Submit+form:login'' = None"
    by (simp add: keyPattern_match_def match_context_suffix_def eval_string)
  have c: "CHR '':'' \<notin> set ''Greeting''" by simp
  from a n c
    parseKey_fallback_second_part [OF a(1), THEN conjunct1, rule_format, OF n]
    parseKey_fallback_second_part [OF a(2), THEN conjunct2, rule_format, OF c]
  show ?thesis
    by (simp add: before_colon_def after_colon_def eval_string)
qed

text \<open>
  C5. \<open>findBestMatch\<close> is a function of the candidate list and the target, and among
  candidates that tie on the highest score the first one in the list wins: the
  result is \<open>k\<close> exactly when \<open>k\<close> stands in the list with a positive score, every
  candidate before it scores strictly less and no candidate after it scores more.
  A later candidate with an equal score never replaces it.
\<close>

theorem findBestMatch_first_seen_wins:
  "findBestMatch ks ti tc = Some k \<longleftrightarrow>
     (\<exists>pre post. ks = pre @ k # post \<and>
        (\<forall>p\<in>set pre. score_of ti tc p < score_of ti tc k) \<and>
        (\<forall>q\<in>set post. score_of ti tc q \<le> score_of ti tc k) \<and>
        0 < score_of ti tc k)"
proof
  assume "findBestMatch ks ti tc = Some k"
  with findBestMatch_cases [of ks ti tc] show
    "\<exists>pre post. ks = pre @ k # post \<and>
        (\<forall>p\<in>set pre. score_of ti tc p < score_of ti tc k) \<and>
        (\<forall>q\<in>set post. score_of ti tc q \<le> score_of ti tc k) \<and>
        0 < score_of ti tc k" by auto
next
  assume "\<exists>pre post. ks = pre @ k # post \<and>
        (\<forall>p\<in>set pre. score_of ti tc p < score_of ti tc k) \<and>
        (\<forall>q\<in>set post. score_of ti tc q \<le> score_of ti tc k) \<and>
        0 < score_of ti tc k"
  then obtain pre post where d: "ks = pre @ k # post"
    "\<forall>p\<in>set pre. score_of ti tc p < score_of ti tc k"
    "\<forall>q\<in>set post. score_of ti tc q \<le> score_of ti tc k" "0 < score_of ti tc k" by blast
  from loop_first_max [OF d(2) d(3) d(4)] d(1)
  show "findBestMatch ks ti tc = Some k" by (simp add: findBestMatch_def)
qed

theorem findBestMatch_first_seen_wins_witness:
  "score_of ''greeting'' ''app_entry'' cand_first = score_of ''greeting'' ''app_entry'' cand_second \<and>
   cand_first \<noteq> cand_second \<and>
   findBestMatch [cand_default, cand_first, cand_second, cand_farewell] ''greeting'' ''app_entry''
     = Some cand_first"
proof -
  have "\<exists>pre post. [cand_default, cand_first, cand_second, cand_farewell] = pre @ cand_first # post \<and>
        (\<forall>p\<in>set pre. score_of ''greeting'' ''app_entry'' p
                        < score_of ''greeting'' ''app_entry'' cand_first) \<and>
        (\<forall>q\<in>set post. score_of ''greeting'' ''app_entry'' q
                        \<le> score_of ''greeting'' ''app_entry'' cand_first) \<and>
        0 < score_of ''greeting'' ''app_entry'' cand_first"
    by (rule exI [of _ "[cand_default]"], rule exI [of _ "[cand_second, cand_farewell]"])
       (simp add: example_scores)
  then have "findBestMatch [cand_default, cand_first, cand_second, cand_farewell]
               ''greeting'' ''app_entry'' = Some cand_first"
    by (rule findBestMatch_first_seen_wins [THEN iffD2])
  moreover have "cand_first \<noteq> cand_second"
    by (simp add: cand_first_def cand_second_def)
  ultimately show ?thesis by (simp add: example_scores)
qed

text \<open>
  C7. A candidate with exact intent and exact context scores 15, and that is strictly
  more than the score of any candidate whose intent differs from the target's,
  whatever that candidate's context is.
\<close>

theorem exact_match_outscores_other_intent:
  "keyIntent \<noteq> targetIntent \<Longrightarrow>
     calculateMatchScore targetIntent targetContext targetIntent targetContext = 15 \<and>
     calculateMatchScore keyIntent keyContext targetIntent targetContext
       < calculateMatchScore targetIntent targetContext targetIntent targetContext"
  by (simp add: calculateMatchScore_def)

theorem exact_match_outscores_other_intent_witness:
  "''farewell'' \<noteq> ''greeting'' \<and>
   calculateMatchScore ''greeting'' ''app_entry'' ''greeting'' ''app_entry'' = 15 \<and>
   calculateMatchScore ''farewell'' ''app_entry'' ''greeting'' ''app_entry'' = 5 \<and>
   calculateMatchScore ''farewell'' ''app_entry'' ''greeting'' ''app_entry''
     < calculateMatchScore ''greeting'' ''app_entry'' ''greeting'' ''app_entry''"
  using exact_match_outscores_other_intent
    [of "''farewell''" "''greeting''" "''app_entry''" "''app_entry''"]
  by (simp add: calculateMatchScore_def)

text \<open>
  C8. \<open>findBestMatch\<close> returns no match exactly when no candidate scores above
  zero against the target; otherwise it returns a candidate of the list whose score
  is strictly positive.
\<close>

theorem findBestMatch_none_iff_no_positive_score:
  "(findBestMatch ks ti tc = None \<longleftrightarrow> (\<forall>k\<in>set ks. score_of ti tc k = 0)) \<and>
   (\<forall>k. findBestMatch ks ti tc = Some k \<longrightarrow> k \<in> set ks \<and> 0 < score_of ti tc k)"
  using findBestMatch_cases [of ks ti tc] by fastforce

theorem findBestMatch_none_iff_no_positive_score_witness:
  "score_of ''greeting'' ''app_entry'' cand_unrelated = 0 \<and>
   findBestMatch [cand_unrelated, cand_unrelated] ''greeting'' ''app_entry'' = None \<and>
   findBestMatch [cand_unrelated, cand_farewell] ''greeting'' ''app_entry'' = Some cand_farewell \<and>
   cand_farewell \<in> set [cand_unrelated, cand_farewell] \<and>
   0 < score_of ''greeting'' ''app_entry'' cand_farewell"
proof -
  have z: "\<forall>k\<in>set [cand_unrelated, cand_unrelated]. score_of ''greeting'' ''app_entry'' k = 0"
    by (simp add: example_scores)
  have f: "findBestMatch [cand_unrelated, cand_farewell] ''greeting'' ''app_entry''
             = Some cand_farewell"
    by (simp add: findBestMatch_def example_scores)
  from z f
    findBestMatch_none_iff_no_positive_score
      [of "[cand_unrelated, cand_unrelated]" "''greeting''" "''app_entry''"]
    findBestMatch_none_iff_no_positive_score
      [of "[cand_unrelated, cand_farewell]" "''greeting''" "''app_entry''"]
  show ?thesis by (simp add: example_scores)
qed

section \<open>The claims: cache service\<close>

text \<open>
  C3 as stated: \<open>set\<close> followed at once by \<open>get\<close> returns the value, for every
  value, with the shared tier reachable or not. It fails for the empty string when
  the shared tier is reachable: \<open>set\<close> stores it there only, and \<open>get\<close> takes the
  falsy answer of the shared tier for a miss.
\<close>

theorem set_then_get_empty_counterexample:
  "shared_reachable cache_shared_empty \<and>
   get (set_cached cache_shared_empty 0 ''greeting'' ''tr'' []) 0 ''greeting'' ''tr'' = None \<and>
   get (set_cached cache_shared_empty 0 ''greeting'' ''tr'' []) 0 ''greeting'' ''tr'' \<noteq> Some []"
  by (simp add: shared_reachable_def cache_shared_empty_def get_def set_cached_def get_redis_def
      get_memory_def redis_setex_def redis_get_def getCacheKey_def CACHE_TTL_def)

text \<open>
  C3, amended. \<open>set\<close> at time \<open>t\<close> followed by \<open>get\<close> at any time before the TTL
  has elapsed (before \<open>t\<close> plus 3600 seconds, in milliseconds; at once in
  particular) returns the value for every non-empty value, with the shared tier
  reachable or not; for the empty string it does so when the shared tier is not
  reachable.
\<close>

theorem set_then_get_roundtrip:
  "v \<noteq> [] \<or> \<not> shared_reachable s \<Longrightarrow> now < t + CACHE_TTL * 1000 \<Longrightarrow>
     get (set_cached s t key lang v) now key lang = Some v"
proof -
  assume a: "v \<noteq> [] \<or> \<not> shared_reachable s" and w: "now < t + CACHE_TTL * 1000"
  show ?thesis
  proof (cases "redis s")
    case None
    with w show ?thesis
      by (simp add: get_def set_cached_def set_memory_def get_redis_def get_memory_def
          update_conv')
  next
    case (Some r)
    show ?thesis
    proof (cases "failing r")
      case True
      with Some w show ?thesis
        by (simp add: get_def set_cached_def set_memory_def get_redis_def get_memory_def
            redis_setex_def redis_get_def update_conv')
    next
      case False
      with Some a have "v \<noteq> []" by (simp add: shared_reachable_def)
      with Some False w show ?thesis
        by (simp add: get_def set_cached_def get_redis_def redis_setex_def redis_get_def
            update_conv')
    qed
  qed
qed

theorem set_then_get_roundtrip_witness:
  "shared_reachable cache_shared_empty \<and> \<not> shared_reachable cache_local_only \<and>
   (5 :: int) < 5 + CACHE_TTL * 1000 \<and> (3600004 :: int) < 5 + CACHE_TTL * 1000 \<and>
   get (set_cached cache_shared_empty 5 ''greeting'' ''tr'' ''Merhaba'') 5 ''greeting'' ''tr''
     = Some ''Merhaba'' \<and>
   get (set_cached cache_shared_empty 5 ''greeting'' ''tr'' ''Merhaba'') 3600004 ''greeting'' ''tr''
     = Some ''Merhaba'' \<and>
   get (set_cached cache_local_only 5 ''greeting'' ''tr'' ''Merhaba'') 3600004 ''greeting'' ''tr''
     = Some ''Merhaba'' \<and>
   get (set_cached cache_local_only 5 ''greeting'' ''tr'' []) 5 ''greeting'' ''tr'' = Some []"
proof -
  have r: "shared_reachable cache_shared_empty" "\<not> shared_reachable cache_local_only"
    by (simp_all add: shared_reachable_def cache_shared_empty_def cache_local_only_def)
  have v: "''Merhaba'' \<noteq> []" by simp
  have w: "(5 :: int) < 5 + CACHE_TTL * 1000" "(3600004 :: int) < 5 + CACHE_TTL * 1000"
    by (simp_all add: CACHE_TTL_def)
  from r w
    set_then_get_roundtrip [of "''Merhaba''" cache_shared_empty 5 5 "''greeting''" "''tr''",
      OF disjI1, OF v w(1)]
    set_then_get_roundtrip [of "''Merhaba''" cache_shared_empty 3600004 5 "''greeting''" "''tr''",
      OF disjI1, OF v w(2)]
    set_then_get_roundtrip [of "''Merhaba''" cache_local_only 3600004 5 "''greeting''" "''tr''",
      OF disjI1, OF v w(2)]
    set_then_get_roundtrip [of "[]" cache_local_only 5 5 "''greeting''" "''tr''",
      OF disjI2, OF r(2) w(1)]
  show ?thesis by simp
qed

text \<open>
  C6. An entry that \<open>set\<close> writes to the local tier at time \<open>t\<close> is absent from
  \<open>get\<close> at every time from \<open>t\<close> plus the TTL (3600 seconds, in milliseconds) on;
  and whenever \<open>get\<close> returns a value, it is the shared tier's answer or the value
  of a local entry whose \<open>expiresAt\<close> is strictly later than the time of the call.
\<close>

theorem local_entry_absent_after_ttl:
  "(\<not> shared_reachable s \<longrightarrow> t + CACHE_TTL * 1000 \<le> now \<longrightarrow>
      get (set_cached s t key lang v) now key lang = None) \<and>
   (get s now key lang = Some v \<longrightarrow>
      get_redis s now (getCacheKey key lang) = Some v \<or>
      (\<exists>e. map_of (memoryCache s) (getCacheKey key lang) = Some e \<and> entry_value e = v \<and>
           now < expiresAt e))"
  using set_then_get_expired [of s t now key lang v] get_Some_origin [of s now key lang v]
  by blast

theorem local_entry_absent_after_ttl_witness:
  "\<not> shared_reachable cache_local_only \<and> (5 :: int) + CACHE_TTL * 1000 \<le> 3600005 \<and>
   get (set_cached cache_local_only 5 ''greeting'' ''tr'' ''Merhaba'') 3600005 ''greeting'' ''tr''
     = None \<and>
   get (set_cached cache_local_only 5 ''greeting'' ''tr'' ''Merhaba'') 3600004 ''greeting'' ''tr''
     = Some ''Merhaba'' \<and>
   get_redis (set_cached cache_local_only 5 ''greeting'' ''tr'' ''Merhaba'') 3600004
     (getCacheKey ''greeting'' ''tr'') = None \<and>
   (\<exists>e. map_of (memoryCache (set_cached cache_local_only 5 ''greeting'' ''tr'' ''Merhaba''))
          (getCacheKey ''greeting'' ''tr'') = Some e \<and>
        entry_value e = ''Merhaba'' \<and> 3600004 < expiresAt e)"
proof -
  have r: "\<not> shared_reachable cache_local_only"
    by (simp add: shared_reachable_def cache_local_only_def)
  have t: "(5 :: int) + CACHE_TTL * 1000 \<le> 3600005" by (simp add: CACHE_TTL_def)
  have g: "get (set_cached cache_local_only 5 ''greeting'' ''tr'' ''Merhaba'') 3600004
             ''greeting'' ''tr'' = Some ''Merhaba''"
    by (simp add: cache_local_only_def get_def set_cached_def set_memory_def get_redis_def
        get_memory_def getCacheKey_def CACHE_TTL_def)
  have n: "get_redis (set_cached cache_local_only 5 ''greeting'' ''tr'' ''Merhaba'') 3600004
             (getCacheKey ''greeting'' ''tr'') = None"
    by (simp add: cache_local_only_def set_cached_def set_memory_def get_redis_def)
  from r t g n
    local_entry_absent_after_ttl
      [of cache_local_only 5 3600005 "''greeting''" "''tr''" "''Merhaba''", THEN conjunct1]
    local_entry_absent_after_ttl
      [of "set_cached cache_local_only 5 ''greeting'' ''tr'' ''Merhaba''" 0 3600004
          "''greeting''" "''tr''" "''Merhaba''", THEN conjunct2]
  show ?thesis by simp
qed




text \<open>
  C10. When the shared tier answers \<open>get\<close> with the empty string, \<open>get\<close> takes it for
  a miss and falls through to the local tier: it returns the value of the local
  entry for the key when that entry is live, and is absent when the local tier has
  no entry for the key or an expired one. The result is the one the service gives
  with no shared tier at all, so the empty value in the shared tier is never what
  \<open>get\<close> returns.
\<close>

theorem get_treats_empty_shared_value_as_miss:
  "redis s = Some r \<Longrightarrow> redis_get r now (getCacheKey key lang) = Inr (Some []) \<Longrightarrow>
     get s now key lang =
       (case map_of (memoryCache s) (getCacheKey key lang) of
          None \<Rightarrow> None
        | Some e \<Rightarrow> (if now < expiresAt e then Some (entry_value e) else None)) \<and>
     (\<forall>e. map_of (memoryCache s) (getCacheKey key lang) = Some e \<longrightarrow> now < expiresAt e \<longrightarrow>
        get s now key lang = Some (entry_value e)) \<and>
     ((\<forall>e. map_of (memoryCache s) (getCacheKey key lang) = Some e \<longrightarrow> expiresAt e \<le> now)
        \<longrightarrow> get s now key lang = None) \<and>
     get s now key lang = get (s\<lparr>redis := None\<rparr>) now key lang"
proof -
  assume a: "redis s = Some r" "redis_get r now (getCacheKey key lang) = Inr (Some [])"
  have g: "get s now key lang =
       (case map_of (memoryCache s) (getCacheKey key lang) of
          None \<Rightarrow> None
        | Some e \<Rightarrow> (if now < expiresAt e then Some (entry_value e) else None))"
    using a by (simp add: get_def get_redis_def get_memory_def)
  have w: "get (s\<lparr>redis := None\<rparr>) now key lang =
       (case map_of (memoryCache s) (getCacheKey key lang) of
          None \<Rightarrow> None
        | Some e \<Rightarrow> (if now < expiresAt e then Some (entry_value e) else None))"
    by (simp add: get_def get_redis_def get_memory_def)
  show ?thesis
  proof (intro conjI allI impI)
    show "get s now key lang =
       (case map_of (memoryCache s) (getCacheKey key lang) of
          None \<Rightarrow> None
        | Some e \<Rightarrow> (if now < expiresAt e then Some (entry_value e) else None))"
      by (rule g)
  next
    fix e
    assume "map_of (memoryCache s) (getCacheKey key lang) = Some e" "now < expiresAt e"
    with g show "get s now key lang = Some (entry_value e)" by simp
  next
    assume "\<forall>e. map_of (memoryCache s) (getCacheKey key lang) = Some e \<longrightarrow> expiresAt e \<le> now"
    with g show "get s now key lang = None" by (auto split: option.splits)
  next
    from g w show "get s now key lang = get (s\<lparr>redis := None\<rparr>) now key lang" by simp
  qed
qed

theorem get_treats_empty_shared_value_as_miss_witness:
  "redis_get \<lparr>failing = False,
              entries = [(''greeting:tr'', \<lparr>redis_value = [], redis_expiry = 100\<rparr>)]\<rparr>
     0 (getCacheKey ''greeting'' ''tr'') = Inr (Some []) \<and>
   map_of (memoryCache cache_shared_empty_local_live) (getCacheKey ''greeting'' ''tr'')
     = Some \<lparr>entry_value = ''Merhaba'', expiresAt = 50\<rparr> \<and>
   get cache_shared_empty_local_live 0 ''greeting'' ''tr'' = Some ''Merhaba'' \<and>
   get cache_shared_empty_local_live 50 ''greeting'' ''tr'' = None \<and>
   get cache_shared_holds_empty 0 ''greeting'' ''tr'' = None \<and>
   get cache_shared_holds_empty 0 ''greeting'' ''tr''
     = get (cache_shared_holds_empty\<lparr>redis := None\<rparr>) 0 ''greeting'' ''tr''"
proof -
  define r where "r = \<lparr>failing = False,
              entries = [(''greeting:tr'', \<lparr>redis_value = [], redis_expiry = 100\<rparr>)]\<rparr>"
  have h1: "redis cache_shared_holds_empty = Some r" "redis cache_shared_empty_local_live = Some r"
    by (simp_all add: cache_shared_holds_empty_def cache_shared_empty_local_live_def r_def)
  have h2: "redis_get r 0 (getCacheKey ''greeting'' ''tr'') = Inr (Some [])"
    "redis_get r 50 (getCacheKey ''greeting'' ''tr'') = Inr (Some [])"
    by (simp_all add: redis_get_def getCacheKey_def r_def)
  have l: "map_of (memoryCache cache_shared_empty_local_live) (getCacheKey ''greeting'' ''tr'')
             = Some \<lparr>entry_value = ''Merhaba'', expiresAt = 50\<rparr>"
    by (simp add: cache_shared_empty_local_live_def getCacheKey_def)
  have e: "map_of (memoryCache cache_shared_holds_empty) (getCacheKey ''greeting'' ''tr'') = None"
    by (simp add: cache_shared_holds_empty_def)
  from l get_treats_empty_shared_value_as_miss [OF h1(2) h2(1)]
  have live: "get cache_shared_empty_local_live 0 ''greeting'' ''tr'' = Some ''Merhaba''"
    by simp
  from l get_treats_empty_shared_value_as_miss [OF h1(2) h2(2)]
  have expired: "get cache_shared_empty_local_live 50 ''greeting'' ''tr'' = None"
    by simp
  from e get_treats_empty_shared_value_as_miss [OF h1(1) h2(1)]
  have none: "get cache_shared_holds_empty 0 ''greeting'' ''tr'' = None"
    by simp
  from get_treats_empty_shared_value_as_miss [OF h1(1) h2(1)]
  have same: "get cache_shared_holds_empty 0 ''greeting'' ''tr''
       = get (cache_shared_holds_empty\<lparr>redis := None\<rparr>) 0 ''greeting'' ''tr''"
    by blast
  from h2(1) l live expired none same show ?thesis unfolding r_def by blast
qed

section \<open>The claims: approval and the cache\<close>

text \<open>
  C2 as stated: a successful approval triggers a cache \<open>delete\<close> for the approved
  key and language, so that no stale value stays cached. It fails: the handler
  never touches the cache. With \<open>Merhaba\<close> cached for \<open>intent:greeting\<close> in \<open>tr\<close>, the
  approval of \<open>Selam\<close> succeeds and \<open>get\<close> still returns \<open>Merhaba\<close>; the cache is not
  the one \<open>delete\<close> would leave.
\<close>

theorem approve_keeps_cached_value_counterexample:
  "fst (approve app_with_cached_greeting ''c1'')
     = ContributionApproved ''intent:greeting'' ''Selam'' ''tr'' \<and>
   get (cacheService (snd (approve app_with_cached_greeting ''c1''))) 1000
     ''intent:greeting'' ''tr'' = Some ''Merhaba'' \<and>
   cacheService (snd (approve app_with_cached_greeting ''c1''))
     \<noteq> delete (cacheService app_with_cached_greeting) ''intent:greeting'' ''tr''"
  by (simp add: approve_def app_with_cached_greeting_def get_def get_redis_def get_memory_def
      getCacheKey_def delete_def)

text \<open>
  C2, amended. An approval leaves the cache service as it was, whatever its
  outcome: a value cached for the key and language stays until its TTL elapses or a
  \<open>delete\<close> removes it. A successful approval writes the suggested value to the
  durable store as the approved translation of the contribution's key and language.
\<close>

theorem approve_leaves_cache_unchanged:
  "cacheService (snd (approve app ident)) = cacheService app \<and>
   (\<forall>k v l. fst (approve app ident) = ContributionApproved k v l \<longrightarrow>
      (\<exists>c. map_of (contributions (prisma app)) ident = Some c \<and> v = suggestedValue c \<and>
         map_of (translationRows (prisma (snd (approve app ident)))) (keyId c, languageId c) =
           Some \<lparr>translation_value = v, translation_status = APPROVED\<rparr>))"
  using approve_cache [of app ident] approve_store [of app ident] by blast

theorem approve_leaves_cache_unchanged_witness:
  "fst (approve app_with_cached_greeting ''c1'')
     = ContributionApproved ''intent:greeting'' ''Selam'' ''tr'' \<and>
   cacheService (snd (approve app_with_cached_greeting ''c1''))
     = cacheService app_with_cached_greeting \<and>
   map_of (translationRows (prisma (snd (approve app_with_cached_greeting ''c1''))))
     (''k1'', ''l1'') = Some \<lparr>translation_value = ''Selam'', translation_status = APPROVED\<rparr>"
proof -
  have f: "fst (approve app_with_cached_greeting ''c1'')
             = ContributionApproved ''intent:greeting'' ''Selam'' ''tr''"
    by (simp add: approve_def app_with_cached_greeting_def)
  have c: "map_of (contributions (prisma app_with_cached_greeting)) ''c1''
             = Some \<lparr>keyId = ''k1'', languageId = ''l1'', suggestedValue = ''Selam'',
                     contribution_status = OPEN\<rparr>"
    by (simp add: app_with_cached_greeting_def)
  from approve_leaves_cache_unchanged [of app_with_cached_greeting "''c1''", THEN conjunct2,
      rule_format, OF f] c
  have "map_of (translationRows (prisma (snd (approve app_with_cached_greeting ''c1''))))
     (''k1'', ''l1'') = Some \<lparr>translation_value = ''Selam'', translation_status = APPROVED\<rparr>"
    by auto
  with f approve_leaves_cache_unchanged [of app_with_cached_greeting "''c1''", THEN conjunct1]
  show ?thesis by simp
qed

end
